theory Spec2Isabelle
  imports Main
begin

section \<open>Exceptions and observable events\<close>

text \<open>
  The program is \<^verbatim>\<open>prepare_rent_sell_count_data.py\<close>: a Fetcher
  (\<^verbatim>\<open>get_rent_sell_count\<close>) that drives a headless browser, and a Recorder
  (\<^verbatim>\<open>main\<close>) that writes one dated row to a worksheet.

  Python exceptions are values of \<open>exn\<close>; a call that may raise returns
  \<open>exn + 'a\<close> with \<open>Inl\<close> the exception. \<open>str(e)\<close> is \<open>str_exn\<close>.
  \<open>KeyError\<close> carries the key, as pandas raises it, and prints as the key.
\<close>

datatype exn =
    ValueError string
  | PlaywrightTimeoutError string
  | PlaywrightError string
  | FileNotFoundError string
  | KeyError int
  | APIError string

text \<open>Decimal rendering of numbers, as an f-string or \<open>str\<close> renders an \<open>int\<close>.\<close>

definition digit_char :: "nat \<Rightarrow> char" where
  "digit_char d = ''0123456789'' ! d"

function show_nat :: "nat \<Rightarrow> string" where
  "show_nat n = (if n < 10 then [digit_char n] else show_nat (n div 10) @ [digit_char (n mod 10)])"
  by pat_completeness auto
termination
  by (relation "measure id") auto

declare show_nat.simps [simp del]

definition show_int :: "int \<Rightarrow> string" where
  "show_int i = (if i < 0 then ''-'' @ show_nat (nat (- i)) else show_nat (nat i))"

fun str_exn :: "exn \<Rightarrow> string" where
  "str_exn (ValueError m) = m"
| "str_exn (PlaywrightTimeoutError m) = m"
| "str_exn (PlaywrightError m) = m"
| "str_exn (FileNotFoundError m) = m"
| "str_exn (KeyError k) = show_int k"
| "str_exn (APIError m) = m"

text \<open>
  What a run does to the outside world is recorded as a chronological list of events:
  the browser calls, the logger calls with their level, \<open>print\<close>, \<open>time.sleep\<close>,
  and the worksheet calls. \<open>Launched\<close> is a launch that produced a browser,
  \<open>LaunchFailed\<close> one that raised. \<open>browser.close()\<close>, the logger, \<open>print\<close> and
  \<open>time.sleep\<close> are effects that complete: they are events, not failing calls.
\<close>

datatype level = INFO | WARNING | ERROR

datatype event =
    Launched
  | LaunchFailed
  | NewPage
  | Goto nat
  | Sleep
  | WaitForSelector
  | QuerySelector
  | InnerText
  | Close
  | Log level string
  | Print string
  | LoadCredentials string
  | Authorize
  | OpenSheet string
  | GetAllValues
  | UpdateCell nat nat string

section \<open>The Fetcher\<close>

text \<open>The module-level dictionary \<open>url_map\<close>, in the order it is written.\<close>

definition url_table :: "(string \<times> string) list" where
  "url_table =
    [(''RENT'', ''https://hk.centanet.com/findproperty/list/rent''),
     (''SELL'', ''https://hk.centanet.com/findproperty/list/buy''),
     (''WAN_CHAI_RENT'',
      ''https://hk.centanet.com/findproperty/list/rent/%E7%81%A3%E4%BB%94_19-HMA160?q=33e8505214''),
     (''WAN_CHAI_SELL'',
      ''https://hk.centanet.com/findproperty/list/buy/%E7%81%A3%E4%BB%94_19-HMA160?q=34d618e4ef'')]"

definition url_map :: "string \<rightharpoonup> string" where
  "url_map = map_of url_table"

text \<open>
  What the browser and the site answer during one call of the Fetcher. Each field is the
  outcome of one library call: \<open>None\<close> (or \<open>Inr\<close>) when it returns, the exception
  when it raises. \<open>goto_res\<close> is indexed by the attempt number; \<open>query_res\<close> is
  \<open>Inr False\<close> when \<open>query_selector\<close> returns \<open>None\<close>. The two elapsed times
  are the already formatted \<open>time.time()\<close> differences. \<open>re_digit\<close> is the character
  class \<open>\d\<close> of the \<open>re\<close> module, whose table is not part of the program.
\<close>

record browser_env =
  launch_res :: "exn option"
  new_page_res :: "exn option"
  goto_res :: "nat \<Rightarrow> exn option"
  wait_res :: "exn option"
  query_res :: "exn + bool"
  inner_text_res :: "exn + string"
  nav_elapsed :: string
  total_elapsed :: string
  re_digit :: "char \<Rightarrow> bool"

text \<open>\<open>re.sub(r'[^\d]', '', data)\<close>: every character outside the class is removed.\<close>

definition re_sub_non_digit :: "(char \<Rightarrow> bool) \<Rightarrow> string \<Rightarrow> string" where
  "re_sub_non_digit isd data = filter isd data"

text \<open>
  The navigation loop \<open>for attempt in range(3)\<close>. It ends in one of three ways: the
  code after the loop runs (\<open>Proceed\<close>: a \<open>break\<close>, or the range is used up), the
  function has returned \<open>"0"\<close> after the third timeout (\<open>GaveUp\<close>), or \<open>goto\<close>
  raised something that is not a timeout (\<open>NavRaised\<close>), which leaves the loop for the
  outer handler.
\<close>

datatype nav = Proceed | GaveUp | NavRaised exn

definition retry_msg :: "string \<Rightarrow> nat \<Rightarrow> string \<Rightarrow> string" where
  "retry_msg type_str attempt m =
     type_str @ '' - Retry '' @ show_nat (attempt + 1) @ ''/3 after timeout: '' @ m"

definition failed_msg :: "string \<Rightarrow> string" where
  "failed_msg type_str = type_str @ '' - Failed after 3 attempts''"

fun navigate :: "browser_env \<Rightarrow> string \<Rightarrow> nat list \<Rightarrow> nav \<times> event list" where
  "navigate env type_str [] = (Proceed, [])"
| "navigate env type_str (attempt # rest) =
     (case goto_res env attempt of
        None \<Rightarrow>
          (Proceed,
           [Goto attempt,
            Log INFO (type_str @ '' - Page navigated in '' @ nav_elapsed env @ ''s'')])
      | Some (PlaywrightTimeoutError m) \<Rightarrow>
          (let ev = [Goto attempt,
                     Log WARNING (retry_msg type_str attempt m),
                     Print (retry_msg type_str attempt m),
                     Sleep]
           in if attempt = 2
              then (GaveUp,
                    ev @ [Log ERROR (failed_msg type_str), Print (failed_msg type_str), Close])
              else (case navigate env type_str rest of (r, ev') \<Rightarrow> (r, ev @ ev')))
      | Some e \<Rightarrow> (NavRaised e, [Goto attempt]))"

text \<open>The code after the loop: wait for the element, read it, strip it, close.\<close>

definition count_msg :: "string \<Rightarrow> string \<Rightarrow> string" where
  "count_msg type_str revised_data = type_str @ '' count: '' @ revised_data"

definition extract_count :: "browser_env \<Rightarrow> string \<Rightarrow> (exn + string) \<times> event list" where
  "extract_count env type_str =
     (case wait_res env of
        Some e \<Rightarrow> (Inl e, [WaitForSelector])
      | None \<Rightarrow>
          (case query_res env of
             Inl e \<Rightarrow> (Inl e, [WaitForSelector, QuerySelector])
           | Inr False \<Rightarrow>
               (Inl (ValueError (type_str @ '' - Could not find count element'')),
                [WaitForSelector, QuerySelector])
           | Inr True \<Rightarrow>
               (case inner_text_res env of
                  Inl e \<Rightarrow> (Inl e, [WaitForSelector, QuerySelector, InnerText])
                | Inr data \<Rightarrow>
                    (let revised_data = re_sub_non_digit (re_digit env) data
                     in (Inr revised_data,
                         [WaitForSelector, QuerySelector, InnerText, Close,
                          Log INFO (count_msg type_str revised_data),
                          Print (count_msg type_str revised_data),
                          Print (type_str @ '' - Total time: '' @ total_elapsed env @ ''s'')])))))"

text \<open>
  The body of the \<open>try\<close>. The third component says whether the local \<open>browser\<close> is
  bound when the body is left, which is what \<open>'browser' in locals()\<close> tests.
\<close>

definition fetch_try :: "browser_env \<Rightarrow> string \<Rightarrow> (exn + string) \<times> event list \<times> bool" where
  "fetch_try env type_str =
     (let url = (case url_map type_str of None \<Rightarrow> [] | Some u \<Rightarrow> u)
      in if url = [] then (Inl (ValueError (''Invalid type: '' @ type_str)), [], False)
         else
           (case launch_res env of
              Some e \<Rightarrow> (Inl e, [LaunchFailed], False)
            | None \<Rightarrow>
                (case new_page_res env of
                   Some e \<Rightarrow> (Inl e, [Launched, NewPage], True)
                 | None \<Rightarrow>
                     (let ev0 = [Launched, NewPage,
                                 Log INFO (type_str @ '' - Navigating to '' @ url)]
                      in case navigate env type_str [0, 1, 2] of
                           (GaveUp, ev) \<Rightarrow> (Inr ''0'', ev0 @ ev, True)
                         | (NavRaised e, ev) \<Rightarrow> (Inl e, ev0 @ ev, True)
                         | (Proceed, ev) \<Rightarrow>
                             (case extract_count env type_str of
                                (r, ev') \<Rightarrow> (r, ev0 @ ev @ ev', True))))))"

text \<open>
  The whole function: the body, and the handler \<open>except Exception\<close> around it, which
  logs, prints, closes the browser if there is one and returns \<open>"0"\<close>.
\<close>

definition fetch_error_msg :: "string \<Rightarrow> exn \<Rightarrow> string" where
  "fetch_error_msg type_str e =
     ''Error in get_rent_sell_count for '' @ type_str @ '': '' @ str_exn e"

definition get_rent_sell_count :: "browser_env \<Rightarrow> string \<Rightarrow> (exn + string) \<times> event list" where
  "get_rent_sell_count env type_str =
     (case fetch_try env type_str of
        (Inr data, ev, bound) \<Rightarrow> (Inr data, ev)
      | (Inl e, ev, bound) \<Rightarrow>
          (Inr ''0'',
           ev @ [Log ERROR (fetch_error_msg type_str e), Print (fetch_error_msg type_str e)]
              @ (if bound then [Close] else [])))"

text \<open>
  Whether a browser is open after a sequence of events, given whether one was open
  before: a launch that succeeded opens it, \<open>close\<close> closes it.
\<close>

fun browser_open :: "bool \<Rightarrow> event list \<Rightarrow> bool" where
  "browser_open b [] = b"
| "browser_open b (Launched # evs) = browser_open True evs"
| "browser_open b (Close # evs) = browser_open False evs"
| "browser_open b (e # evs) = browser_open b evs"

section \<open>The Recorder\<close>

text \<open>
  \<open>datetime.date.today()\<close> is a calendar date; \<open>strftime('%Y-%m-%d')\<close> renders it
  with a four-digit year and two-digit month and day, zero-padded.
\<close>

record date =
  year :: nat
  month :: nat
  day :: nat

definition date_less :: "date \<Rightarrow> date \<Rightarrow> bool" where
  "date_less d e \<longleftrightarrow>
     year d < year e \<or>
     year d = year e \<and> (month d < month e \<or> month d = month e \<and> day d < day e)"

definition zfill :: "nat \<Rightarrow> string \<Rightarrow> string" where
  "zfill w s = replicate (w - length s) CHR ''0'' @ s"

definition strftime_Ymd :: "date \<Rightarrow> string" where
  "strftime_Ymd d =
     zfill 4 (show_nat (year d)) @ ''-'' @ zfill 2 (show_nat (month d)) @ ''-''
       @ zfill 2 (show_nat (day d))"

text \<open>\<open>os.path.join(os.getcwd(), 'token.json')\<close> on a POSIX system.\<close>

definition path_join :: "string \<Rightarrow> string \<Rightarrow> string" where
  "path_join a b = (if a = [] \<or> last a = CHR ''/'' then a @ b else a @ ''/'' @ b)"

text \<open>
  The worksheet is the table \<open>get_all_values\<close> returns: a list of rows of text
  cells. \<open>pd.DataFrame(rows)\<close> has one column per position of the longest row and
  labels its rows \<open>0 .. len(rows) - 1\<close>; a row shorter than the frame holds \<open>None\<close>
  there. \<open>df[col][r]\<close> looks the column label up first and the row label second, and
  either lookup raises \<open>KeyError\<close> with the missing label.
\<close>

definition ncols :: "string list list \<Rightarrow> nat" where
  "ncols rows = foldr (\<lambda>r n. max (length r) n) rows 0"

definition df_get :: "string list list \<Rightarrow> nat \<Rightarrow> int \<Rightarrow> exn + string option" where
  "df_get rows col r =
     (if \<not> col < ncols rows then Inl (KeyError (int col))
      else if r < 0 \<or> int (length rows) \<le> r then Inl (KeyError r)
      else (let row = rows ! nat r
            in Inr (if col < length row then Some (row ! col) else None)))"

text \<open>\<open>str(x)\<close> of a cell of the frame.\<close>

definition str_cell :: "string option \<Rightarrow> string" where
  "str_cell c = (case c of None \<Rightarrow> ''None'' | Some s \<Rightarrow> s)"

text \<open>
  \<open>sheet.update_cell(row, col, value)\<close>, rows and columns counted from 1: the cell
  takes the value, and the table grows by empty rows and empty cells as far as needed.
\<close>

definition row_set :: "nat \<Rightarrow> string \<Rightarrow> string list \<Rightarrow> string list" where
  "row_set col v r = (r @ replicate (col - length r) [])[col - 1 := v]"

definition update_cell :: "nat \<Rightarrow> nat \<Rightarrow> string \<Rightarrow> string list list \<Rightarrow> string list list" where
  "update_cell row col v sh =
     (let sh' = sh @ replicate (row - length sh) []
      in sh'[row - 1 := row_set col v (sh' ! (row - 1))])"

text \<open>
  Everything outside the program that one run meets: the browser environment of each
  query, whether \<open>token.json\<close> exists, the working directory, the outcome of each
  call of the credential and spreadsheet libraries (\<open>None\<close> when it returns), the
  content of the worksheet, today's date, and the outcome of \<open>update_cell\<close> for each
  column.
\<close>

record world =
  browsers :: "string \<Rightarrow> browser_env"
  token_exists :: bool
  cwd :: string
  creds_res :: "exn option"
  authorize_res :: "exn option"
  open_res :: "exn option"
  get_all_values_res :: "exn option"
  sheet :: "string list list"
  today :: date
  update_res :: "nat \<Rightarrow> exn option"

text \<open>The four calls of the Fetcher, in order; an exception would end the sequence.\<close>

fun fetch_all :: "world \<Rightarrow> string list \<Rightarrow> (exn + string list) \<times> event list" where
  "fetch_all w [] = (Inr [], [])"
| "fetch_all w (type_str # rest) =
     (case get_rent_sell_count (browsers w type_str) type_str of
        (Inl e, ev) \<Rightarrow> (Inl e, ev)
      | (Inr data, ev) \<Rightarrow>
          (case fetch_all w rest of
             (Inl e, ev') \<Rightarrow> (Inl e, ev @ ev')
           | (Inr ds, ev') \<Rightarrow> (Inr (data # ds), ev @ ev')))"

text \<open>Credentials, authorisation and \<open>open_by_key(...).sheet1\<close>, then the read.\<close>

definition str_sheet_id :: string where
  "str_sheet_id = ''1A69Ajirbxz3iuon4hahjEFA-fu63QYU_LJMhYk0WfYo''"

definition open_and_read :: "world \<Rightarrow> exn option \<times> event list" where
  "open_and_read w =
     (let token_file_name = path_join (cwd w) ''token.json''
      in if \<not> token_exists w
         then (Some (FileNotFoundError (''Token file not found at '' @ token_file_name)), [])
         else
           (case creds_res w of
              Some e \<Rightarrow> (Some e, [LoadCredentials token_file_name])
            | None \<Rightarrow>
                (case authorize_res w of
                   Some e \<Rightarrow> (Some e, [LoadCredentials token_file_name, Authorize])
                 | None \<Rightarrow>
                     (case open_res w of
                        Some e \<Rightarrow>
                          (Some e,
                           [LoadCredentials token_file_name, Authorize, OpenSheet str_sheet_id])
                      | None \<Rightarrow>
                          (get_all_values_res w,
                           [LoadCredentials token_file_name, Authorize, OpenSheet str_sheet_id,
                            GetAllValues])))))"

text \<open>
  The five \<open>update_cell\<close> calls, in the order they are written. A call that raises
  leaves the worksheet as it is and ends the sequence.
\<close>

fun write_cells ::
  "(nat \<Rightarrow> exn option) \<Rightarrow> nat \<Rightarrow> (nat \<times> string) list \<Rightarrow> string list list
     \<Rightarrow> exn option \<times> string list list \<times> event list" where
  "write_cells res row [] sh = (None, sh, [])"
| "write_cells res row ((col, v) # cs) sh =
     (case res col of
        Some e \<Rightarrow> (Some e, sh, [UpdateCell row col v])
      | None \<Rightarrow>
          (case write_cells res row cs (update_cell row col v sh) of
             (r, sh', ev) \<Rightarrow> (r, sh', UpdateCell row col v # ev)))"

text \<open>The part of the \<open>try\<close> after the four counts are known.\<close>

definition record_row ::
  "world \<Rightarrow> string list \<Rightarrow> exn option \<times> string list list \<times> event list" where
  "record_row w counts =
     (case open_and_read w of
        (Some e, ev) \<Rightarrow> (Some e, sheet w, ev)
      | (None, ev) \<Rightarrow>
          (let rows = sheet w;
               row_count = length rows;
               data_date = strftime_Ymd (today w);
               ev1 = ev @ [Log INFO (''Current row count: '' @ show_nat row_count),
                           Print (''Current row count: '' @ show_nat row_count),
                           Log INFO (''Data date: '' @ data_date),
                           Print (''Data date: '' @ data_date)]
           in case df_get rows 0 (int row_count - 1) of
                Inl e \<Rightarrow> (Some e, sheet w, ev1)
              | Inr c \<Rightarrow>
                  (let current_row =
                         (if str_cell c = data_date then row_count else row_count + 1)
                   in case write_cells (update_res w) current_row
                             (zip [1, 2, 3, 4, 5] (data_date # counts)) rows of
                        (Some e, sh, ev2) \<Rightarrow> (Some e, sh, ev1 @ ev2)
                      | (None, sh, ev2) \<Rightarrow>
                          (None, sh,
                           ev1 @ ev2 @
                           [Log INFO (''Successfully updated row '' @ show_nat current_row),
                            Print (''Successfully updated row '' @ show_nat current_row)]))))"

text \<open>
  \<open>main\<close>, inside the \<open>with sync_playwright()\<close> block: the result string, the
  worksheet after the run, and the events of the run.
\<close>

definition query_ids :: "string list" where
  "query_ids = [''RENT'', ''SELL'', ''WAN_CHAI_RENT'', ''WAN_CHAI_SELL'']"

definition main_error :: "exn \<Rightarrow> string list list \<Rightarrow> event list
    \<Rightarrow> (exn + string) \<times> string list list \<times> event list" where
  "main_error e sh ev =
     (Inr (''Error: '' @ str_exn e), sh,
      ev @ [Log ERROR (''Error in main: '' @ str_exn e), Print (''Error in main: '' @ str_exn e)])"

definition main :: "world \<Rightarrow> (exn + string) \<times> string list list \<times> event list" where
  "main w =
     (let ev0 = [Log INFO ''Starting data collection'', Print ''Starting data collection'']
      in case fetch_all w query_ids of
           (Inl e, ev) \<Rightarrow> main_error e (sheet w) (ev0 @ ev)
         | (Inr counts, ev) \<Rightarrow>
             (case record_row w counts of
                (Some e, sh, ev') \<Rightarrow> main_error e sh (ev0 @ ev @ ev')
              | (None, sh, ev') \<Rightarrow> (Inr ''Success!'', sh, ev0 @ ev @ ev')))"

text \<open>The library calls of the Recorder all return.\<close>

definition api_ok :: "world \<Rightarrow> bool" where
  "api_ok w \<longleftrightarrow>
     token_exists w \<and> creds_res w = None \<and> authorize_res w = None \<and> open_res w = None \<and>
     get_all_values_res w = None \<and> list_all (\<lambda>c. update_res w c = None) [1, 2, 3, 4, 5]"

text \<open>The \<open>update_cell\<close> calls among the events of a run.\<close>

fun is_update :: "event \<Rightarrow> bool" where
  "is_update (UpdateCell r c v) = True"
| "is_update e = False"

definition writes :: "event list \<Rightarrow> event list" where
  "writes evs = filter is_update evs"

text \<open>
  The first cell of each row, and the sheet invariant: the first cells are the
  renderings of a list of dates, one per row.
\<close>

definition first_cell :: "string list \<Rightarrow> string option" where
  "first_cell r = (case r of [] \<Rightarrow> None | c # cs \<Rightarrow> Some c)"

definition dated_by :: "date list \<Rightarrow> string list list \<Rightarrow> bool" where
  "dated_by ds sh \<longleftrightarrow> map first_cell sh = map (\<lambda>d. Some (strftime_Ymd d)) ds"

text \<open>The three components of a run of \<open>main\<close>.\<close>

definition main_result :: "world \<Rightarrow> exn + string" where
  "main_result w = fst (main w)"

definition sheet_after :: "world \<Rightarrow> string list list" where
  "sheet_after w = fst (snd (main w))"

definition main_events :: "world \<Rightarrow> event list" where
  "main_events w = snd (snd (main w))"

text \<open>The table grown to \<open>n\<close> rows, as \<open>update_cell\<close> grows it.\<close>

definition pad_rows :: "nat \<Rightarrow> string list list \<Rightarrow> string list list" where
  "pad_rows n sh = sh @ replicate (n - length sh) []"

text \<open>A \<open>goto\<close> that raised the timeout error of Playwright.\<close>

definition timed_out :: "exn option \<Rightarrow> bool" where
  "timed_out r = (case r of Some (PlaywrightTimeoutError m) \<Rightarrow> True | _ \<Rightarrow> False)"

text \<open>
  The navigation loop is left by \<open>break\<close>: some attempt returns, and every attempt
  before it raised the timeout error.
\<close>

definition navigation_ok :: "browser_env \<Rightarrow> bool" where
  "navigation_ok env \<longleftrightarrow>
     goto_res env 0 = None \<or>
     timed_out (goto_res env 0) \<and>
       (goto_res env 1 = None \<or> timed_out (goto_res env 1) \<and> goto_res env 2 = None)"

section \<open>Example runs\<close>

text \<open>
  Concrete environments: a page that shows a given text, a page whose navigation always
  times out, a browser whose page cannot be created, and a worksheet of five rows.
\<close>

definition ascii_digit :: "char \<Rightarrow> bool" where
  "ascii_digit c \<longleftrightarrow> c \<in> set ''0123456789''"

definition page_showing :: "string \<Rightarrow> browser_env" where
  "page_showing txt =
     \<lparr>launch_res = None, new_page_res = None, goto_res = (\<lambda>attempt. None), wait_res = None,
      query_res = Inr True, inner_text_res = Inr txt, nav_elapsed = ''0.80'',
      total_elapsed = ''1.50'', re_digit = ascii_digit\<rparr>"

definition page_timing_out :: browser_env where
  "page_timing_out =
     (page_showing [])\<lparr>goto_res :=
        (\<lambda>attempt. Some (PlaywrightTimeoutError ''Timeout 30000ms exceeded.''))\<rparr>"

definition page_crashing :: browser_env where
  "page_crashing = (page_showing [])\<lparr>new_page_res := Some (PlaywrightError ''Target closed'')\<rparr>"

definition site :: "string list \<Rightarrow> string \<Rightarrow> browser_env" where
  "site counts type_str =
     page_showing
       (if type_str = ''RENT'' then counts ! 0
        else if type_str = ''SELL'' then counts ! 1
        else if type_str = ''WAN_CHAI_RENT'' then counts ! 2
        else counts ! 3)"

definition five_rows :: "string list list" where
  "five_rows =
     [[''2023-12-28'', ''117'', ''44'', ''3'', ''1''],
      [''2023-12-29'', ''118'', ''44'', ''3'', ''1''],
      [''2023-12-30'', ''118'', ''45'', ''3'', ''1''],
      [''2023-12-31'', ''119'', ''45'', ''3'', ''1''],
      [''2024-01-01'', ''119'', ''45'', ''3'', ''1'']]"

definition five_dates :: "date list" where
  "five_dates =
     [\<lparr>year = 2023, month = 12, day = 28\<rparr>, \<lparr>year = 2023, month = 12, day = 29\<rparr>,
      \<lparr>year = 2023, month = 12, day = 30\<rparr>, \<lparr>year = 2023, month = 12, day = 31\<rparr>,
      \<lparr>year = 2024, month = 1, day = 1\<rparr>]"

definition new_year :: date where
  "new_year = \<lparr>year = 2024, month = 1, day = 1\<rparr>"

definition next_day :: date where
  "next_day = \<lparr>year = 2024, month = 1, day = 2\<rparr>"

definition example_world :: "string list \<Rightarrow> string list list \<Rightarrow> date \<Rightarrow> world" where
  "example_world counts rows d =
     \<lparr>browsers = site counts, token_exists = True, cwd = ''/home/runner'', creds_res = None,
      authorize_res = None, open_res = None, get_all_values_res = None, sheet = rows,
      today = d, update_res = (\<lambda>col. None)\<rparr>"

section \<open>Properties of the Fetcher\<close>

subsection \<open>Unknown query identifiers\<close>

lemma url_map_unknown:
  "type_str \<notin> {''RENT'', ''SELL'', ''WAN_CHAI_RENT'', ''WAN_CHAI_SELL''} \<Longrightarrow> url_map type_str = None"
  by (simp add: url_map_def url_table_def)

lemma url_map_query_ids:
  "type_str \<in> set query_ids \<Longrightarrow> \<exists>u. url_map type_str = Some u \<and> u \<noteq> []"
  by (auto simp add: url_map_def url_table_def query_ids_def)

lemma fetch_try_unknown:
  "url_map type_str = None \<Longrightarrow> fetch_try env type_str = (Inl (ValueError (''Invalid type: '' @ type_str)), [], False)"
  by (simp add: fetch_try_def)

text \<open>
  Claim C7. Given a query identifier that is not one of the four keys of \<open>url_map\<close>,
  the Fetcher returns \<open>"0"\<close>, whatever the browser would have answered.
\<close>

theorem unknown_query_returns_zero:
  "type_str \<notin> {''RENT'', ''SELL'', ''WAN_CHAI_RENT'', ''WAN_CHAI_SELL''} \<Longrightarrow>
     fst (get_rent_sell_count env type_str) = Inr ''0''"
  by (simp add: get_rent_sell_count_def fetch_try_unknown url_map_unknown)

text \<open>
  An instance: the identifier \<open>LEASE\<close> is not a key, and the Fetcher returns
  \<open>"0"\<close> for it.
\<close>

theorem unknown_query_returns_zero_witness:
  "''LEASE'' \<notin> {''RENT'', ''SELL'', ''WAN_CHAI_RENT'', ''WAN_CHAI_SELL''} \<and>
   fst (get_rent_sell_count (page_showing ''1,234'') ''LEASE'') = Inr ''0''"
proof -
  have h: "''LEASE'' \<notin> {''RENT'', ''SELL'', ''WAN_CHAI_RENT'', ''WAN_CHAI_SELL''}" by simp
  from unknown_query_returns_zero [OF h] h show ?thesis by simp
qed

text \<open>
  Claim C10. For an unknown query identifier the Fetcher returns \<open>"0"\<close> and its
  only effects are one logger call and one \<open>print\<close> of the error message: the
  identifier is rejected before \<open>launch\<close>, so no browser event occurs.
\<close>

theorem unknown_query_launches_no_browser:
  "type_str \<notin> {''RENT'', ''SELL'', ''WAN_CHAI_RENT'', ''WAN_CHAI_SELL''} \<Longrightarrow>
     get_rent_sell_count env type_str =
       (Inr ''0'',
        [Log ERROR (''Error in get_rent_sell_count for '' @ type_str @ '': Invalid type: '' @ type_str),
         Print (''Error in get_rent_sell_count for '' @ type_str @ '': Invalid type: '' @ type_str)])"
  by (simp add: get_rent_sell_count_def fetch_try_unknown url_map_unknown fetch_error_msg_def)

text \<open>
  An instance: for the identifier \<open>BUY\<close> no launch, successful or failed, is among
  the events.
\<close>

theorem unknown_query_launches_no_browser_witness:
  "''BUY'' \<notin> {''RENT'', ''SELL'', ''WAN_CHAI_RENT'', ''WAN_CHAI_SELL''} \<and>
   Launched \<notin> set (snd (get_rent_sell_count (page_showing ''1,234'') ''BUY'')) \<and>
   LaunchFailed \<notin> set (snd (get_rent_sell_count (page_showing ''1,234'') ''BUY''))"
proof -
  have h: "''BUY'' \<notin> {''RENT'', ''SELL'', ''WAN_CHAI_RENT'', ''WAN_CHAI_SELL''}" by simp
  from unknown_query_launches_no_browser [OF h, of "page_showing ''1,234''"] h show ?thesis by simp
qed

subsection \<open>The result of a fetch\<close>

lemma extract_digits:
  "extract_count env t = (Inr s, ev) \<Longrightarrow> list_all (re_digit env) s"
  by (auto simp: extract_count_def re_sub_non_digit_def Let_def list_all_iff
      split: option.splits sum.splits bool.splits)

lemma fetch_try_result:
  "fetch_try env t = (Inr s, ev, bound) \<Longrightarrow> s = ''0'' \<or> list_all (re_digit env) s"
proof -
  assume ft: "fetch_try env t = (Inr s, ev, bound)"
  obtain n nev where nav: "navigate env t [0, 1, 2] = (n, nev)"
    by (cases "navigate env t [0, 1, 2]")
  obtain x xev where ex: "extract_count env t = (x, xev)"
    by (cases "extract_count env t")
  from ft nav ex have "s = ''0'' \<or> x = Inr s"
    by (auto simp: fetch_try_def Let_def simp del: navigate.simps
        split: if_splits option.splits nav.splits)
  with ex extract_digits show ?thesis by blast
qed

lemma url_map_not_query: "type_str \<notin> set query_ids \<Longrightarrow> url_map type_str = None"
  by (simp add: query_ids_def url_map_def url_table_def)

lemma navigate_proceeds: "fst (navigate env t [0, 1, 2]) = Proceed \<longleftrightarrow> navigation_ok env"
  by (auto simp: navigation_ok_def timed_out_def Let_def split: option.splits exn.splits prod.splits)

lemma extract_count_ok:
  "wait_res env = None \<Longrightarrow> query_res env = Inr True \<Longrightarrow>
     fst (extract_count env t) =
       (case inner_text_res env of
          Inl e \<Rightarrow> Inl e
        | Inr data \<Rightarrow> Inr (re_sub_non_digit (re_digit env) data))"
  by (simp add: extract_count_def Let_def split: sum.splits)

lemma extract_count_raises:
  "wait_res env \<noteq> None \<or> query_res env \<noteq> Inr True \<Longrightarrow> \<exists>e. fst (extract_count env t) = Inl e"
  by (auto simp: extract_count_def Let_def split: option.splits sum.splits bool.splits)

lemma fetcher_value:
  "fst (get_rent_sell_count env type_str) =
     Inr (if type_str \<in> set query_ids \<and> launch_res env = None \<and> new_page_res env = None \<and>
             navigation_ok env \<and> wait_res env = None \<and> query_res env = Inr True
          then (case inner_text_res env of
                  Inl e \<Rightarrow> ''0''
                | Inr data \<Rightarrow> re_sub_non_digit (re_digit env) data)
          else ''0'')"
proof (cases "type_str \<in> set query_ids")
  case False
  then show ?thesis
    by (simp add: get_rent_sell_count_def fetch_try_unknown url_map_not_query)
next
  case True
  from url_map_query_ids [OF True] obtain u where u: "url_map type_str = Some u" "u \<noteq> []"
    by blast
  obtain n nev where nav: "navigate env type_str [0, 1, 2] = (n, nev)"
    by (cases "navigate env type_str [0, 1, 2]")
  obtain x xev where ex: "extract_count env type_str = (x, xev)"
    by (cases "extract_count env type_str")
  from navigate_proceeds [of env type_str] nav have n: "n = Proceed \<longleftrightarrow> navigation_ok env"
    by simp
  from extract_count_ok [of env type_str] ex have
    x1: "wait_res env = None \<and> query_res env = Inr True \<Longrightarrow>
      x = (case inner_text_res env of Inl e \<Rightarrow> Inl e
           | Inr data \<Rightarrow> Inr (re_sub_non_digit (re_digit env) data))"
    by simp
  from extract_count_raises [of env type_str] ex have
    x2: "wait_res env \<noteq> None \<or> query_res env \<noteq> Inr True \<Longrightarrow> \<exists>e. x = Inl e"
    by simp
  show ?thesis
  proof (cases "launch_res env = None \<and> new_page_res env = None")
    case False
    with True u show ?thesis
      by (auto simp: get_rent_sell_count_def fetch_try_def Let_def simp del: navigate.simps
          split: option.splits)
  next
    case ok: True
    show ?thesis
    proof (cases n)
      case Proceed
      with n have nok: "navigation_ok env" by simp
      show ?thesis
      proof (cases "wait_res env = None \<and> query_res env = Inr True")
        case True
        from x1 [OF True] True nok ok u nav ex Proceed \<open>type_str \<in> set query_ids\<close> show ?thesis
          by (simp add: get_rent_sell_count_def fetch_try_def Let_def del: navigate.simps
              split: sum.splits)
      next
        case False
        then have "wait_res env \<noteq> None \<or> query_res env \<noteq> Inr True" by simp
        from x2 [OF this] obtain e where "x = Inl e" by blast
        with False nok ok u nav ex Proceed \<open>type_str \<in> set query_ids\<close> show ?thesis
          by (auto simp add: get_rent_sell_count_def fetch_try_def Let_def simp del: navigate.simps)
      qed
    next
      case GaveUp
      with n have "\<not> navigation_ok env" by simp
      with ok u nav GaveUp show ?thesis
        by (simp add: get_rent_sell_count_def fetch_try_def Let_def del: navigate.simps)
    next
      case (NavRaised e)
      with n have "\<not> navigation_ok env" by simp
      with ok u nav NavRaised show ?thesis
        by (simp add: get_rent_sell_count_def fetch_try_def Let_def del: navigate.simps)
    qed
  qed
qed



text \<open>
  Claim C1. For every query identifier and every answer of the browser, the Fetcher
  does not raise: it returns a string, and that string is \<open>"0"\<close> or consists only of
  characters of the digit class. Every failure gives \<open>"0"\<close>: an identifier that is
  not a key of \<open>url_map\<close>, a launch or a page creation that raises, a navigation that
  raises or times out three times, a wait that raises, a query that raises or finds no
  element, a text read that raises, and in general any exception of the body of the
  \<open>try\<close>. When every call returns, the result is the text of the element with all
  characters outside the digit class removed.
\<close>

theorem fetcher_never_raises_digits_or_zero:
  "\<exists>s. fst (get_rent_sell_count env type_str) = Inr s \<and>
     (s = ''0'' \<or> list_all (re_digit env) s) \<and>
     (type_str \<notin> set query_ids \<longrightarrow> s = ''0'') \<and>
     (launch_res env \<noteq> None \<longrightarrow> s = ''0'') \<and>
     (new_page_res env \<noteq> None \<longrightarrow> s = ''0'') \<and>
     (\<not> navigation_ok env \<longrightarrow> s = ''0'') \<and>
     (wait_res env \<noteq> None \<longrightarrow> s = ''0'') \<and>
     (query_res env \<noteq> Inr True \<longrightarrow> s = ''0'') \<and>
     (\<forall>e. inner_text_res env = Inl e \<longrightarrow> s = ''0'') \<and>
     (\<forall>e. fst (fetch_try env type_str) = Inl e \<longrightarrow> s = ''0'') \<and>
     (\<forall>data. type_str \<in> set query_ids \<and> launch_res env = None \<and> new_page_res env = None \<and>
        navigation_ok env \<and> wait_res env = None \<and> query_res env = Inr True \<and>
        inner_text_res env = Inr data \<longrightarrow> s = filter (re_digit env) data)"
proof -
  let ?ok = "type_str \<in> set query_ids \<and> launch_res env = None \<and> new_page_res env = None \<and>
             navigation_ok env \<and> wait_res env = None \<and> query_res env = Inr True"
  let ?s = "if ?ok then (case inner_text_res env of Inl e \<Rightarrow> ''0''
                          | Inr data \<Rightarrow> re_sub_non_digit (re_digit env) data) else ''0''"
  have v: "fst (get_rent_sell_count env type_str) = Inr ?s"
    by (rule fetcher_value)
  have d: "?s = ''0'' \<or> list_all (re_digit env) ?s"
    by (simp add: re_sub_non_digit_def list_all_iff split: sum.splits)
  have t: "\<forall>e. fst (fetch_try env type_str) = Inl e \<longrightarrow> ?s = ''0''"
  proof (intro allI impI)
    fix e assume "fst (fetch_try env type_str) = Inl e"
    then have "fst (get_rent_sell_count env type_str) = Inr ''0''"
      by (cases "fetch_try env type_str") (simp add: get_rent_sell_count_def)
    with v show "?s = ''0''" by simp
  qed
  have f: "(type_str \<notin> set query_ids \<longrightarrow> ?s = ''0'') \<and>
     (launch_res env \<noteq> None \<longrightarrow> ?s = ''0'') \<and>
     (new_page_res env \<noteq> None \<longrightarrow> ?s = ''0'') \<and>
     (\<not> navigation_ok env \<longrightarrow> ?s = ''0'') \<and>
     (wait_res env \<noteq> None \<longrightarrow> ?s = ''0'') \<and>
     (query_res env \<noteq> Inr True \<longrightarrow> ?s = ''0'') \<and>
     (\<forall>e. inner_text_res env = Inl e \<longrightarrow> ?s = ''0'')"
    by auto
  have g: "\<forall>data. ?ok \<and> inner_text_res env = Inr data \<longrightarrow> ?s = filter (re_digit env) data"
    by (simp add: re_sub_non_digit_def)
  from v d t f g show ?thesis by blast
qed

text \<open>
  Instances: the page cannot be created and the result is \<open>"0"\<close>; the element is
  missing and the result is \<open>"0"\<close>; the element reads \<open>1,234 results\<close> and the
  result is \<open>1234\<close>.
\<close>

theorem fetcher_never_raises_digits_or_zero_witness:
  "new_page_res page_crashing \<noteq> None \<and>
   fst (get_rent_sell_count page_crashing ''RENT'') = Inr ''0'' \<and>
   query_res ((page_showing ''1,234'')\<lparr>query_res := Inr False\<rparr>) \<noteq> Inr True \<and>
   fst (get_rent_sell_count ((page_showing ''1,234'')\<lparr>query_res := Inr False\<rparr>) ''SELL'') = Inr ''0'' \<and>
   ''RENT'' \<in> set query_ids \<and> navigation_ok (page_showing ''1,234 results'') \<and>
   inner_text_res (page_showing ''1,234 results'') = Inr ''1,234 results'' \<and>
   fst (get_rent_sell_count (page_showing ''1,234 results'') ''RENT'') = Inr ''1234''"
proof -
  have h1: "new_page_res page_crashing \<noteq> None"
    by (simp add: page_crashing_def page_showing_def)
  have h2: "query_res ((page_showing ''1,234'')\<lparr>query_res := Inr False\<rparr>) \<noteq> Inr True"
    by simp
  have h3: "''RENT'' \<in> set query_ids \<and> launch_res (page_showing ''1,234 results'') = None \<and>
      new_page_res (page_showing ''1,234 results'') = None \<and>
      navigation_ok (page_showing ''1,234 results'') \<and>
      wait_res (page_showing ''1,234 results'') = None \<and>
      query_res (page_showing ''1,234 results'') = Inr True \<and>
      inner_text_res (page_showing ''1,234 results'') = Inr ''1,234 results''"
    by (simp add: query_ids_def page_showing_def navigation_ok_def)
  have h4: "filter (re_digit (page_showing ''1,234 results'')) ''1,234 results'' = ''1234''"
    by (simp add: page_showing_def ascii_digit_def)
  from fetcher_never_raises_digits_or_zero [of page_crashing "''RENT''"] h1
  have a: "fst (get_rent_sell_count page_crashing ''RENT'') = Inr ''0''" by auto
  from fetcher_never_raises_digits_or_zero [of "(page_showing ''1,234'')\<lparr>query_res := Inr False\<rparr>" "''SELL''"] h2
  have b: "fst (get_rent_sell_count ((page_showing ''1,234'')\<lparr>query_res := Inr False\<rparr>) ''SELL'') = Inr ''0''"
    by auto
  from fetcher_never_raises_digits_or_zero [of "page_showing ''1,234 results''" "''RENT''"] h3 h4
  have c: "fst (get_rent_sell_count (page_showing ''1,234 results'') ''RENT'') = Inr ''1234''"
    by auto
  from a b c h1 h2 h3 show ?thesis by simp
qed

subsection \<open>Three timeouts\<close>

lemma timed_outD: "timed_out r \<Longrightarrow> \<exists>m. r = Some (PlaywrightTimeoutError m)"
  by (auto simp: timed_out_def split: option.splits exn.splits)

lemma navigate_three_timeouts:
  assumes "\<forall>a<3. timed_out (goto_res env a)"
  shows "\<exists>pre. navigate env t [0, 1, 2] =
           (GaveUp, pre @ [Log ERROR (failed_msg t), Print (failed_msg t), Close])
     \<and> set pre \<inter> {WaitForSelector, QuerySelector, InnerText, Close} = {}"
proof -
  from assms have "timed_out (goto_res env 0)" "timed_out (goto_res env 1)" "timed_out (goto_res env 2)"
    by simp_all
  then obtain m0 m1 m2 where
    "goto_res env 0 = Some (PlaywrightTimeoutError m0)"
    "goto_res env 1 = Some (PlaywrightTimeoutError m1)"
    "goto_res env 2 = Some (PlaywrightTimeoutError m2)"
    by (blast dest: timed_outD)
  then have "navigate env t [0, 1, 2] =
    (GaveUp, [Goto 0, Log WARNING (retry_msg t 0 m0), Print (retry_msg t 0 m0), Sleep,
              Goto 1, Log WARNING (retry_msg t 1 m1), Print (retry_msg t 1 m1), Sleep,
              Goto 2, Log WARNING (retry_msg t 2 m2), Print (retry_msg t 2 m2), Sleep]
             @ [Log ERROR (failed_msg t), Print (failed_msg t), Close])"
    by (simp add: Let_def)
  then show ?thesis
    by (intro exI conjI) (assumption, simp)
qed

text \<open>
  Claim C6. If the browser and the page were obtained and \<open>goto\<close> times out on
  each of the three attempts, the Fetcher returns \<open>"0"\<close>; its last three effects are
  the error log, the \<open>print\<close> of the failure and \<open>browser.close()\<close>, and before
  them it neither waits for the element, nor queries it, nor reads its text.
\<close>

theorem three_timeouts_return_zero:
  assumes "type_str \<in> set query_ids"
    and "launch_res env = None"
    and "new_page_res env = None"
    and "\<forall>attempt<3. timed_out (goto_res env attempt)"
  shows "fst (get_rent_sell_count env type_str) = Inr ''0'' \<and>
    (\<exists>pre. snd (get_rent_sell_count env type_str) =
        pre @ [Log ERROR (failed_msg type_str), Print (failed_msg type_str), Close] \<and>
        set pre \<inter> {WaitForSelector, QuerySelector, InnerText, Close} = {})"
proof -
  from url_map_query_ids [OF assms(1)] obtain u where u: "url_map type_str = Some u" "u \<noteq> []"
    by blast
  from navigate_three_timeouts [OF assms(4), of type_str] obtain pre where
    n: "navigate env type_str [0, 1, 2] =
         (GaveUp, pre @ [Log ERROR (failed_msg type_str), Print (failed_msg type_str), Close])"
    and p: "set pre \<inter> {WaitForSelector, QuerySelector, InnerText, Close} = {}"
    by blast
  let ?pre = "[Launched, NewPage, Log INFO (type_str @ '' - Navigating to '' @ u)] @ pre"
  from u n assms(2,3) have
    "get_rent_sell_count env type_str =
       (Inr ''0'', ?pre @ [Log ERROR (failed_msg type_str), Print (failed_msg type_str), Close])"
    by (simp add: get_rent_sell_count_def fetch_try_def Let_def del: navigate.simps)
  moreover from p have "set ?pre \<inter> {WaitForSelector, QuerySelector, InnerText, Close} = {}"
    by simp
  ultimately show ?thesis
    by (metis fst_conv snd_conv)
qed

text \<open>
  An instance: the page whose navigation always times out, queried for \<open>RENT\<close>.
\<close>

theorem three_timeouts_return_zero_witness:
  "''RENT'' \<in> set query_ids \<and> timed_out (goto_res page_timing_out 0) \<and>
   timed_out (goto_res page_timing_out 1) \<and> timed_out (goto_res page_timing_out 2) \<and>
   fst (get_rent_sell_count page_timing_out ''RENT'') = Inr ''0'' \<and>
   WaitForSelector \<notin> set (snd (get_rent_sell_count page_timing_out ''RENT''))"
proof -
  have h1: "''RENT'' \<in> set query_ids" by (simp add: query_ids_def)
  have h2: "launch_res page_timing_out = None" by (simp add: page_timing_out_def page_showing_def)
  have h3: "new_page_res page_timing_out = None" by (simp add: page_timing_out_def page_showing_def)
  have h4: "\<forall>attempt<3. timed_out (goto_res page_timing_out attempt)"
    by (simp add: page_timing_out_def timed_out_def)
  from three_timeouts_return_zero [OF h1 h2 h3 h4] h1 h4 show ?thesis by auto
qed

subsection \<open>The browser is closed\<close>

lemma navigate_open:
  "navigate env t as = (r, ev) \<Longrightarrow> browser_open b ev = (if r = GaveUp then False else b)"
proof (induction as arbitrary: r ev b)
  case Nil
  then show ?case by simp
next
  case (Cons a as)
  then show ?case
    by (auto split: option.splits exn.splits if_splits prod.splits simp: Let_def)
qed

lemma browser_open_append: "browser_open b (xs @ ys) = browser_open (browser_open b xs) ys"
  by (induction b xs rule: browser_open.induct) auto

lemma extract_open:
  "extract_count env t = (r, ev) \<Longrightarrow> browser_open b ev = (case r of Inl _ \<Rightarrow> b | Inr _ \<Rightarrow> False)"
  by (auto simp: extract_count_def Let_def split: option.splits sum.splits bool.splits)

lemma fetch_try_open:
  "fetch_try env t = (r, ev, bound) \<Longrightarrow>
     browser_open False ev = (case r of Inl _ \<Rightarrow> bound | Inr _ \<Rightarrow> False)"
proof (cases "(case url_map t of None \<Rightarrow> [] | Some u \<Rightarrow> u) = []")
  case True
  assume "fetch_try env t = (r, ev, bound)"
  with True show ?thesis by (auto simp: fetch_try_def)
next
  case url: False
  assume ft: "fetch_try env t = (r, ev, bound)"
  show ?thesis
  proof (cases "launch_res env")
    case (Some e)
    with url ft show ?thesis by (auto simp: fetch_try_def)
  next
    case launch: None
    show ?thesis
    proof (cases "new_page_res env")
      case (Some e)
      with url launch ft show ?thesis by (auto simp: fetch_try_def)
    next
      case page: None
      obtain n nev where nav: "navigate env t [0, 1, 2] = (n, nev)"
        by (cases "navigate env t [0, 1, 2]")
      obtain x xev where ex: "extract_count env t = (x, xev)"
        by (cases "extract_count env t")
      from navigate_open [OF nav] have no: "browser_open True nev = (n \<noteq> GaveUp)"
        by simp
      from extract_open [OF ex] have xo: "browser_open True xev = (case x of Inl _ \<Rightarrow> True | Inr _ \<Rightarrow> False)"
        by simp
      from url launch page nav ex ft no xo show ?thesis
        by (cases n) (auto simp: fetch_try_def Let_def browser_open_append simp del: navigate.simps split: sum.splits)
    qed
  qed
qed

text \<open>
  Claim C9. Whatever the query identifier and the answers of the browser, no browser is
  open after the events of a call of the Fetcher: every launch that produced a browser
  is followed by \<open>close\<close> before the function returns, on the successful path, after
  the third timeout, and in the exception handler.
\<close>

theorem browser_closed_when_fetcher_returns: "browser_open False (snd (get_rent_sell_count env type_str)) = False"
proof -
  obtain r ev bound where ft: "fetch_try env type_str = (r, ev, bound)"
    by (cases "fetch_try env type_str")
  from fetch_try_open [OF ft] ft show ?thesis
    by (cases r) (auto simp: get_rent_sell_count_def browser_open_append)
qed

section \<open>Properties of the Recorder\<close>

subsection \<open>Five cell updates on one row\<close>

lemma row_set_five:
  "row_set 5 e (row_set 4 d (row_set 3 c (row_set 2 b (row_set 1 a r)))) = [a, b, c, d, e] @ drop 5 r"
proof -
  consider "r = []" | x1 where "r = [x1]" | x1 x2 where "r = [x1, x2]"
    | x1 x2 x3 where "r = [x1, x2, x3]" | x1 x2 x3 x4 where "r = [x1, x2, x3, x4]"
    | x1 x2 x3 x4 x5 rest where "r = x1 # x2 # x3 # x4 # x5 # rest"
    by (metis list.exhaust)
  then show ?thesis
    by cases (simp_all add: row_set_def numeral_eq_Suc)
qed

lemma update_cell_alt:
  "update_cell row col v sh = (pad_rows row sh)[row - 1 := row_set col v (pad_rows row sh ! (row - 1))]"
  by (simp add: update_cell_def pad_rows_def Let_def)

lemma update_cell_twice:
  "0 < row \<Longrightarrow> update_cell row same_day_run_overwrites_last_row v2 ((pad_rows row sh)[row - 1 := r]) = (pad_rows row sh)[row - 1 := row_set same_day_run_overwrites_last_row v2 r]"
  by (simp add: update_cell_def pad_rows_def Let_def)

lemma update_cell_five:
  assumes "0 < row"
  shows "update_cell row 5 e (update_cell row 4 d (update_cell row 3 c (update_cell row 2 b (update_cell row 1 a sh))))
     = (pad_rows row sh)[row - 1 := [a, b, c, d, e] @ drop 5 (pad_rows row sh ! (row - 1))]"
proof -
  have "update_cell row 1 a sh = (pad_rows row sh)[row - 1 := row_set 1 a (pad_rows row sh ! (row - 1))]"
    by (rule update_cell_alt)
  then show ?thesis
    using assms by (simp only: update_cell_twice row_set_five)
qed

lemma write_cells_five:
  assumes "list_all (\<lambda>c. res c = None) [1, 2, 3, 4, 5]"
  shows "write_cells res row (zip [1, 2, 3, 4, 5] [a, b, c, d, e]) sh =
    (None, update_cell row 5 e (update_cell row 4 d (update_cell row 3 c (update_cell row 2 b (update_cell row 1 a sh)))),
     [UpdateCell row 1 a, UpdateCell row 2 b, UpdateCell row 3 c, UpdateCell row 4 d, UpdateCell row 5 e])"
  using assms by simp

subsection \<open>The fetches write nothing\<close>

lemma writes_append: "writes (xs @ ys) = writes xs @ writes ys"
  by (simp add: writes_def)

lemma writes_Nil: "writes [] = []"
  by (simp add: writes_def)

lemma writes_Cons: "writes (e # es) = (if is_update e then e # writes es else writes es)"
  by (simp add: writes_def)

lemma writes_navigate: "writes (snd (navigate env t as)) = []"
  by (induction as) (auto simp: writes_def Let_def split: option.splits exn.splits prod.splits)

lemma writes_extract: "writes (snd (extract_count env t)) = []"
  by (auto simp: extract_count_def writes_def Let_def split: option.splits sum.splits bool.splits)

lemma writes_fetch_try: "writes (fst (snd (fetch_try env t))) = []"
proof -
  obtain n nev where nav: "navigate env t [0, 1, 2] = (n, nev)"
    by (cases "navigate env t [0, 1, 2]")
  obtain x xev where ex: "extract_count env t = (x, xev)"
    by (cases "extract_count env t")
  from writes_navigate [of env t "[0, 1, 2]"] nav have n0: "writes nev = []" by simp
  from writes_extract [of env t] ex have x0: "writes xev = []" by simp
  from nav ex n0 x0 show ?thesis
    by (cases n)
      (simp_all add: fetch_try_def Let_def writes_append writes_Cons writes_Nil
        del: navigate.simps split: option.splits)
qed

lemma get_rent_sell_count_returns:
  "\<exists>s ev. get_rent_sell_count env t = (Inr s, ev) \<and> writes ev = []"
proof -
  obtain r ev bound where ft: "fetch_try env t = (r, ev, bound)"
    by (cases "fetch_try env t")
  with writes_fetch_try [of env t] have "writes ev = []" by simp
  with ft show ?thesis
    by (cases r) (simp_all add: get_rent_sell_count_def writes_append writes_Cons writes_Nil)
qed

lemma fetch_all_returns:
  "\<exists>counts ev. fetch_all w ts = (Inr counts, ev) \<and> writes ev = []
      \<and> map Inr counts = map (\<lambda>t. fst (get_rent_sell_count (browsers w t) t)) ts"
proof (induction ts)
  case Nil
  show ?case by (simp add: writes_Nil)
next
  case (Cons t ts)
  from get_rent_sell_count_returns [of "browsers w t" t] obtain s ev
    where g: "get_rent_sell_count (browsers w t) t = (Inr s, ev)" "writes ev = []" by blast
  from Cons obtain counts ev' where f: "fetch_all w ts = (Inr counts, ev')" "writes ev' = []"
    "map Inr counts = map (\<lambda>t. fst (get_rent_sell_count (browsers w t) t)) ts" by blast
  from g f show ?case by (simp add: writes_append)
qed

lemma fetch_all_four:
  assumes "map (\<lambda>t. fst (get_rent_sell_count (browsers w t) t)) query_ids = map Inr counts"
  shows "\<exists>ev. fetch_all w query_ids = (Inr counts, ev) \<and> writes ev = []"
proof -
  from fetch_all_returns [of w query_ids] obtain cs ev where
    f: "fetch_all w query_ids = (Inr cs, ev)" "writes ev = []"
    "map Inr cs = map (\<lambda>t. fst (get_rent_sell_count (browsers w t) t)) query_ids" by blast
  from f(3) assms have "map Inr cs = (map Inr counts :: (exn + string) list)" by simp
  then have "cs = counts" by (simp add: inj_map_eq_map [OF inj_Inr])
  with f show ?thesis by blast
qed

subsection \<open>Reading the last row\<close>

lemma length_le_ncols: "r \<in> set rows \<Longrightarrow> length r \<le> ncols rows"
  by (induction rows) (auto simp: ncols_def)

lemma df_get_last:
  assumes "sh \<noteq> []" "first_cell (last sh) = Some c"
  shows "df_get sh 0 (int (length sh) - 1) = Inr (Some c)"
proof -
  from assms obtain cs where l: "last sh = c # cs"
    by (auto simp: first_cell_def split: list.splits)
  from assms(1) have "last sh \<in> set sh" by simp
  from length_le_ncols [OF this] l have "0 < ncols sh" by simp
  moreover from assms(1) have "sh ! nat (int (length sh) - 1) = last sh"
    by (simp add: last_conv_nth nat_diff_distrib')
  moreover from assms(1) have "\<not> int (length sh) \<le> int (length sh) - 1" "\<not> int (length sh) - 1 < 0"
    by (cases sh; simp)+
  ultimately show ?thesis using l
    by (simp add: df_get_def Let_def)
qed

lemma df_get_empty: "df_get [] 0 r = Inl (KeyError 0)"
  by (simp add: df_get_def ncols_def)

lemma open_and_read_ok:
  "api_ok w \<Longrightarrow> \<exists>ev. open_and_read w = (None, ev) \<and> writes ev = []"
  by (simp add: open_and_read_def api_ok_def Let_def writes_def)

lemma open_and_read_no_token:
  "\<not> token_exists w \<Longrightarrow>
     open_and_read w = (Some (FileNotFoundError (''Token file not found at '' @ path_join (cwd w) ''token.json'')), [])"
  by (simp add: open_and_read_def Let_def)

lemma writes_open_and_read: "writes (snd (open_and_read w)) = []"
  by (simp add: open_and_read_def Let_def writes_Cons writes_Nil split: option.splits)

lemma record_row_success:
  assumes ok: "api_ok w"
    and df: "df_get (sheet w) 0 (int (length (sheet w)) - 1) = Inr c"
    and row: "row = (if str_cell c = strftime_Ymd (today w) then length (sheet w) else length (sheet w) + 1)"
  shows "\<exists>ev. record_row w [a, b, c', d] =
      (None,
       (pad_rows row (sheet w))[row - 1 := [strftime_Ymd (today w), a, b, c', d] @ drop 5 (pad_rows row (sheet w) ! (row - 1))],
       ev)
    \<and> writes ev = [UpdateCell row 1 (strftime_Ymd (today w)), UpdateCell row 2 a, UpdateCell row 3 b,
        UpdateCell row 4 c', UpdateCell row 5 d]"
proof -
  from open_and_read_ok [OF ok] obtain ev where o: "open_and_read w = (None, ev)" "writes ev = []"
    by blast
  from ok have u: "list_all (\<lambda>c. update_res w c = None) [1, 2, 3, 4, 5]"
    by (simp add: api_ok_def)
  from df have "sheet w \<noteq> []" by (auto simp: df_get_def ncols_def split: if_splits)
  with row have pos: "0 < row" by (simp split: if_splits)
  have wc: "write_cells (update_res w) row (zip [1, 2, 3, 4, 5] [strftime_Ymd (today w), a, b, c', d]) (sheet w)
      = (None, (pad_rows row (sheet w))[row - 1 := [strftime_Ymd (today w), a, b, c', d] @ drop 5 (pad_rows row (sheet w) ! (row - 1))],
         [UpdateCell row 1 (strftime_Ymd (today w)), UpdateCell row 2 a, UpdateCell row 3 b,
          UpdateCell row 4 c', UpdateCell row 5 d])"
    by (simp only: write_cells_five [OF u] update_cell_five [OF pos])
  from o df row wc show ?thesis
    by (simp add: record_row_def Let_def writes_append writes_Cons writes_Nil del: write_cells.simps zip_Cons_Cons)
qed

lemma record_row_empty:
  assumes "sheet w = []"
  shows "\<exists>e ev. record_row w counts = (Some e, [], ev) \<and> writes ev = [] \<and>
           (api_ok w \<longrightarrow> e = KeyError 0)"
proof -
  obtain r ev where o: "open_and_read w = (r, ev)" by (cases "open_and_read w")
  with writes_open_and_read [of w] have wev: "writes ev = []" by simp
  show ?thesis
  proof (cases r)
    case None
    with o assms df_get_empty wev show ?thesis
      by (simp add: record_row_def Let_def writes_append writes_Cons writes_Nil)
  next
    case (Some e)
    from open_and_read_ok [of w] o Some have "\<not> api_ok w" by auto
    with o assms Some wev show ?thesis
      by (simp add: record_row_def)
  qed
qed

subsection \<open>Example values\<close>

lemma strftime_new_year: "strftime_Ymd new_year = ''2024-01-01''"
  by (simp add: new_year_def next_day_def strftime_Ymd_def zfill_def show_nat.simps digit_char_def)

lemma strftime_next_day: "strftime_Ymd next_day = ''2024-01-02''"
  by (simp add: new_year_def next_day_def strftime_Ymd_def zfill_def show_nat.simps digit_char_def)

lemma fetch_page_showing:
  "type_str \<in> set query_ids \<Longrightarrow>
     fst (get_rent_sell_count (page_showing txt) type_str) = Inr (filter ascii_digit txt)"
  by (auto simp: query_ids_def get_rent_sell_count_def fetch_try_def url_map_def url_table_def
      page_showing_def extract_count_def re_sub_non_digit_def Let_def)

subsection \<open>Runs of the Recorder\<close>

text \<open>
  Claim C2. If the library calls of the Recorder return and the first cell of the last
  row equals today's date string, the run ends with \<open>"Success!"\<close>, its five
  \<open>update_cell\<close> calls address row \<open>row_count\<close>, columns 1 to 5, with the date and
  the four counts, the rows before the last are unchanged, the last row holds the date and
  the four new counts in its first five cells, and the number of rows is what it was.
\<close>

theorem same_day_run_overwrites_last_row:
  assumes "api_ok w"
    and "sheet w \<noteq> []"
    and "first_cell (last (sheet w)) = Some (strftime_Ymd (today w))"
    and "map (\<lambda>t. fst (get_rent_sell_count (browsers w t) t)) query_ids =
           map Inr [rent_data, sell_data, wan_chai_rent_data, wan_chai_sell_data]"
  shows "main_result w = Inr ''Success!'' \<and>
    writes (main_events w) =
      [UpdateCell (length (sheet w)) 1 (strftime_Ymd (today w)),
       UpdateCell (length (sheet w)) 2 rent_data,
       UpdateCell (length (sheet w)) 3 sell_data,
       UpdateCell (length (sheet w)) 4 wan_chai_rent_data,
       UpdateCell (length (sheet w)) 5 wan_chai_sell_data] \<and>
    sheet_after w =
      butlast (sheet w) @
      [[strftime_Ymd (today w), rent_data, sell_data, wan_chai_rent_data, wan_chai_sell_data]
         @ drop 5 (last (sheet w))] \<and>
    length (sheet_after w) = length (sheet w)"
proof -
  let ?n = "length (sheet w)"
  from fetch_all_four [OF assms(4)] obtain ev where
    f: "fetch_all w query_ids = (Inr [rent_data, sell_data, wan_chai_rent_data, wan_chai_sell_data], ev)"
       "writes ev = []" by blast
  from df_get_last [OF assms(2,3)]
  have df: "df_get (sheet w) 0 (int ?n - 1) = Inr (Some (strftime_Ymd (today w)))" .
  have row: "?n = (if str_cell (Some (strftime_Ymd (today w))) = strftime_Ymd (today w) then ?n else ?n + 1)"
    by (simp add: str_cell_def)
  from record_row_success [OF assms(1) df row, of rent_data sell_data wan_chai_rent_data wan_chai_sell_data]
  obtain ev' where r: "record_row w [rent_data, sell_data, wan_chai_rent_data, wan_chai_sell_data] =
      (None,
       (pad_rows ?n (sheet w))[?n - 1 := [strftime_Ymd (today w), rent_data, sell_data, wan_chai_rent_data, wan_chai_sell_data]
           @ drop 5 (pad_rows ?n (sheet w) ! (?n - 1))],
       ev')"
    "writes ev' = [UpdateCell ?n 1 (strftime_Ymd (today w)), UpdateCell ?n 2 rent_data, UpdateCell ?n 3 sell_data,
        UpdateCell ?n 4 wan_chai_rent_data, UpdateCell ?n 5 wan_chai_sell_data]"
    by blast
  have p: "pad_rows ?n (sheet w) = sheet w" by (simp add: pad_rows_def)
  from assms(2) have l: "sheet w ! (?n - Suc 0) = last (sheet w)" by (simp add: last_conv_nth)
  from assms(2) have u: "\<And>x. (sheet w)[?n - Suc 0 := x] = butlast (sheet w) @ [x]"
    by (metis One_nat_def append_butlast_last_id length_butlast list_update_length)
  from f r assms(2) show ?thesis
    by (simp add: main_result_def main_events_def sheet_after_def main_def Let_def
        writes_append writes_Cons writes_Nil p l u)
qed

text \<open>
  An instance: five rows, the last dated 2024-01-01, a run on 2024-01-01 with the
  counts 121, 46, 3, 1. Row 5 is overwritten and there are still five rows.
\<close>

theorem same_day_run_overwrites_last_row_witness:
  "api_ok (example_world [''121'', ''46'', ''3'', ''1''] five_rows new_year) \<and>
   first_cell (last five_rows) = Some (strftime_Ymd new_year) \<and>
   sheet_after (example_world [''121'', ''46'', ''3'', ''1''] five_rows new_year) =
     butlast five_rows @ [[''2024-01-01'', ''121'', ''46'', ''3'', ''1'']] \<and>
   length (sheet_after (example_world [''121'', ''46'', ''3'', ''1''] five_rows new_year)) = 5"
proof -
  let ?w = "example_world [''121'', ''46'', ''3'', ''1''] five_rows new_year"
  have h1: "api_ok ?w" by (simp add: api_ok_def example_world_def)
  have h2: "sheet ?w \<noteq> []" by (simp add: example_world_def five_rows_def)
  have d: "strftime_Ymd (today ?w) = ''2024-01-01''"
    by (simp add: example_world_def strftime_new_year)
  have h3: "first_cell (last (sheet ?w)) = Some (strftime_Ymd (today ?w))"
    by (simp add: d) (simp add: example_world_def five_rows_def first_cell_def)
  have h4: "map (\<lambda>t. fst (get_rent_sell_count (browsers ?w t) t)) query_ids =
      map Inr [''121'', ''46'', ''3'', ''1'']"
    by (simp add: example_world_def site_def fetch_page_showing query_ids_def ascii_digit_def)
  have s: "sheet ?w = five_rows" "today ?w = new_year" by (simp_all add: example_world_def)
  from same_day_run_overwrites_last_row [OF h1 h2 h3 h4] h1 h3 show ?thesis
    unfolding s strftime_new_year by (simp add: five_rows_def)
qed

text \<open>
  Claim C3. If the library calls of the Recorder return, the sheet has a last row, and
  the first cell of that row differs from today's date string, the run ends with
  \<open>"Success!"\<close>, its five \<open>update_cell\<close> calls address row \<open>row_count + 1\<close>,
  columns 1 to 5, and the sheet afterwards is the old sheet followed by the one row
  (date, rent, sell, district rent, district sell): the number of rows grows by one.
\<close>

theorem new_day_run_appends_one_row:
  assumes "api_ok w"
    and "sheet w \<noteq> []"
    and "first_cell (last (sheet w)) = Some c"
    and "c \<noteq> strftime_Ymd (today w)"
    and "map (\<lambda>t. fst (get_rent_sell_count (browsers w t) t)) query_ids =
           map Inr [rent_data, sell_data, wan_chai_rent_data, wan_chai_sell_data]"
  shows "main_result w = Inr ''Success!'' \<and>
    writes (main_events w) =
      [UpdateCell (length (sheet w) + 1) 1 (strftime_Ymd (today w)),
       UpdateCell (length (sheet w) + 1) 2 rent_data,
       UpdateCell (length (sheet w) + 1) 3 sell_data,
       UpdateCell (length (sheet w) + 1) 4 wan_chai_rent_data,
       UpdateCell (length (sheet w) + 1) 5 wan_chai_sell_data] \<and>
    sheet_after w =
      sheet w @
      [[strftime_Ymd (today w), rent_data, sell_data, wan_chai_rent_data, wan_chai_sell_data]] \<and>
    length (sheet_after w) = length (sheet w) + 1"
proof -
  let ?n = "length (sheet w)"
  from fetch_all_four [OF assms(5)] obtain ev where
    f: "fetch_all w query_ids = (Inr [rent_data, sell_data, wan_chai_rent_data, wan_chai_sell_data], ev)"
       "writes ev = []" by blast
  from df_get_last [OF assms(2,3)]
  have df: "df_get (sheet w) 0 (int ?n - 1) = Inr (Some c)" .
  from assms(4) have row: "?n + 1 = (if str_cell (Some c) = strftime_Ymd (today w) then ?n else ?n + 1)"
    by (simp add: str_cell_def)
  from record_row_success [OF assms(1) df row, of rent_data sell_data wan_chai_rent_data wan_chai_sell_data]
  obtain ev' where r: "record_row w [rent_data, sell_data, wan_chai_rent_data, wan_chai_sell_data] =
      (None,
       (pad_rows (?n + 1) (sheet w))[?n + 1 - 1 := [strftime_Ymd (today w), rent_data, sell_data, wan_chai_rent_data, wan_chai_sell_data]
           @ drop 5 (pad_rows (?n + 1) (sheet w) ! (?n + 1 - 1))],
       ev')"
    "writes ev' = [UpdateCell (?n + 1) 1 (strftime_Ymd (today w)), UpdateCell (?n + 1) 2 rent_data, UpdateCell (?n + 1) 3 sell_data,
        UpdateCell (?n + 1) 4 wan_chai_rent_data, UpdateCell (?n + 1) 5 wan_chai_sell_data]"
    by blast
  have p: "pad_rows (Suc ?n) (sheet w) = sheet w @ [[]]" by (simp add: pad_rows_def)
  from f r show ?thesis
    by (simp add: main_result_def main_events_def sheet_after_def main_def Let_def
        writes_append writes_Cons writes_Nil p)
qed

text \<open>
  An instance: five rows, the last dated 2024-01-01, a run on 2024-01-02 with the
  counts 120, 45, 3, 1. A sixth row is appended.
\<close>

theorem new_day_run_appends_one_row_witness:
  "api_ok (example_world [''120'', ''45'', ''3'', ''1''] five_rows next_day) \<and>
   sheet_after (example_world [''120'', ''45'', ''3'', ''1''] five_rows next_day) =
     five_rows @ [[''2024-01-02'', ''120'', ''45'', ''3'', ''1'']]"
proof -
  let ?w = "example_world [''120'', ''45'', ''3'', ''1''] five_rows next_day"
  have h1: "api_ok ?w" by (simp add: api_ok_def example_world_def)
  have h2: "sheet ?w \<noteq> []" by (simp add: example_world_def five_rows_def)
  have h3: "first_cell (last (sheet ?w)) = Some ''2024-01-01''"
    by (simp add: example_world_def five_rows_def first_cell_def)
  have d: "strftime_Ymd (today ?w) = ''2024-01-02''"
    by (simp add: example_world_def strftime_next_day)
  have h4: "''2024-01-01'' \<noteq> strftime_Ymd (today ?w)" by (simp add: d)
  have h5: "map (\<lambda>t. fst (get_rent_sell_count (browsers ?w t) t)) query_ids =
      map Inr [''120'', ''45'', ''3'', ''1'']"
    by (simp add: example_world_def site_def fetch_page_showing query_ids_def ascii_digit_def)
  from new_day_run_appends_one_row [OF h1 h2 h3 h4 h5] h1 d show ?thesis
    by (simp add: example_world_def)
qed

text \<open>
  Claim C4. If \<open>token.json\<close> does not exist, the run returns the string
  \<open>"Error: Token file not found at ..."\<close>, issues no \<open>update_cell\<close> call and
  leaves the worksheet as it was.
\<close>

theorem missing_token_no_write:
  assumes "\<not> token_exists w"
  shows "main_result w = Inr (''Error: '' @ ''Token file not found at '' @ path_join (cwd w) ''token.json'') \<and>
     writes (main_events w) = [] \<and> sheet_after w = sheet w"
proof -
  from fetch_all_returns [of w query_ids] obtain cs ev where
    f: "fetch_all w query_ids = (Inr cs, ev)" "writes ev = []" by blast
  from open_and_read_no_token [OF assms] f show ?thesis
    by (simp add: main_result_def main_events_def sheet_after_def main_def Let_def record_row_def
        main_error_def writes_append writes_Cons writes_Nil)
qed

text \<open>
  An instance: the five-row sheet, no token file in \<open>/home/runner\<close>.
\<close>

theorem missing_token_no_write_witness:
  "\<not> token_exists ((example_world [''120'', ''45'', ''3'', ''1''] five_rows next_day)\<lparr>token_exists := False\<rparr>) \<and>
   main_result ((example_world [''120'', ''45'', ''3'', ''1''] five_rows next_day)\<lparr>token_exists := False\<rparr>) =
     Inr ''Error: Token file not found at /home/runner/token.json'' \<and>
   writes (main_events ((example_world [''120'', ''45'', ''3'', ''1''] five_rows next_day)\<lparr>token_exists := False\<rparr>)) = [] \<and>
   sheet_after ((example_world [''120'', ''45'', ''3'', ''1''] five_rows next_day)\<lparr>token_exists := False\<rparr>) = five_rows"
proof -
  let ?w = "(example_world [''120'', ''45'', ''3'', ''1''] five_rows next_day)\<lparr>token_exists := False\<rparr>"
  have h: "\<not> token_exists ?w" by simp
  have p: "path_join (cwd ?w) ''token.json'' = ''/home/runner/token.json''" "sheet ?w = five_rows"
    by (simp_all add: example_world_def path_join_def)
  from missing_token_no_write [OF h] h show ?thesis
    unfolding p by simp
qed

text \<open>
  Claim C5. When the sheet has no rows, the lookup \<open>df[0][row_count - 1]\<close> does not
  succeed: it raises \<open>KeyError(0)\<close>, there being no column \<open>0\<close>. The run takes
  its error branch: it returns a string starting with \<open>"Error: "\<close> (which is
  \<open>"Error: 0"\<close> when the library calls before the lookup return), issues no
  \<open>update_cell\<close> call and leaves the sheet empty.
\<close>

theorem empty_sheet_lookup_fails:
  assumes "sheet w = []"
  shows "df_get (sheet w) 0 (int (length (sheet w)) - 1) = Inl (KeyError 0) \<and>
    (\<exists>e. main_result w = Inr (''Error: '' @ str_exn e)) \<and>
    (api_ok w \<longrightarrow> main_result w = Inr ''Error: 0'') \<and>
    writes (main_events w) = [] \<and> sheet_after w = []"
proof -
  from fetch_all_returns [of w query_ids] obtain cs ev where
    f: "fetch_all w query_ids = (Inr cs, ev)" "writes ev = []" by blast
  from record_row_empty [OF assms, of cs] obtain e ev' where
    r: "record_row w cs = (Some e, [], ev')" "writes ev' = []" "api_ok w \<longrightarrow> e = KeyError 0"
    by blast
  have k: "str_exn (KeyError 0) = ''0''"
    by (simp add: show_int_def show_nat.simps digit_char_def)
  from assms have "df_get (sheet w) 0 (int (length (sheet w)) - 1) = Inl (KeyError 0)"
    by (simp add: df_get_empty)
  moreover from f r have "main_result w = Inr (''Error: '' @ str_exn e)"
    by (simp add: main_result_def main_def Let_def main_error_def)
  moreover from f r have "writes (main_events w) = []" "sheet_after w = []"
    by (simp_all add: main_events_def sheet_after_def main_def Let_def main_error_def
        writes_append writes_Cons writes_Nil)
  ultimately show ?thesis using r(3) k by auto
qed

text \<open>
  An instance: an empty sheet with working credentials; the run returns
  \<open>"Error: 0"\<close>.
\<close>

theorem empty_sheet_lookup_fails_witness:
  "sheet (example_world [''120'', ''45'', ''3'', ''1''] [] next_day) = [] \<and>
   api_ok (example_world [''120'', ''45'', ''3'', ''1''] [] next_day) \<and>
   main_result (example_world [''120'', ''45'', ''3'', ''1''] [] next_day) = Inr ''Error: 0'' \<and>
   writes (main_events (example_world [''120'', ''45'', ''3'', ''1''] [] next_day)) = []"
proof -
  let ?w = "example_world [''120'', ''45'', ''3'', ''1''] [] next_day"
  have h: "sheet ?w = []" by (simp add: example_world_def)
  have a: "api_ok ?w" by (simp add: api_ok_def example_world_def)
  from empty_sheet_lookup_fails [OF h] h a show ?thesis by blast
qed

subsection \<open>The date column\<close>

lemma first_cell_row_set_date: "first_cell (row_set 1 v r) = Some v"
  by (cases r) (simp_all add: row_set_def first_cell_def)

lemma first_cell_row_set_other:
  "1 < c \<Longrightarrow> first_cell r = Some x \<Longrightarrow> first_cell (row_set c v r) = Some x"
proof -
  assume c: "1 < c" and "first_cell r = Some x"
  then obtain xs where r: "r = x # xs"
    by (auto simp: first_cell_def split: list.splits)
  from c have j: "c - 1 = Suc (c - 2)" by simp
  have "(r @ replicate (c - length r) [])[c - 1 := v] = x # (xs @ replicate (c - length r) [])[c - 2 := v]"
    unfolding j by (simp add: r)
  then show ?thesis
    by (simp only: row_set_def first_cell_def list.case)
qed

lemma update_cell_in_range:
  "0 < row \<Longrightarrow> row \<le> length sh \<Longrightarrow>
     update_cell row c v sh = sh[row - 1 := row_set c v (sh ! (row - 1))]"
  by (simp add: update_cell_def Let_def)

lemma first_cells_update_other:
  assumes "0 < row" "row \<le> length sh" "1 < c" "map first_cell sh ! (row - 1) = Some x"
  shows "map first_cell (update_cell row c v sh) = map first_cell sh"
proof -
  from assms(1,2) have i: "row - 1 < length sh" by simp
  with assms(4) have "first_cell (sh ! (row - 1)) = Some x" by simp
  from first_cell_row_set_other [OF assms(3) this]
  have "first_cell (row_set c v (sh ! (row - 1))) = map first_cell sh ! (row - 1)"
    using assms(4) by simp
  then show ?thesis
    by (simp only: update_cell_in_range [OF assms(1,2)] map_update list_update_id)
qed

lemma length_update_cell_in_range:
  "0 < row \<Longrightarrow> row \<le> length sh \<Longrightarrow> length (update_cell row c v sh) = length sh"
  by (simp add: update_cell_in_range)

lemma first_cells_write_rest:
  assumes "0 < row" "row \<le> length sh" "map first_cell sh ! (row - 1) = Some x"
    and "\<forall>p \<in> set cs. 1 < fst p"
  shows "map first_cell (fst (snd (write_cells res row cs sh))) = map first_cell sh"
  using assms
proof (induction cs arbitrary: sh)
  case Nil
  then show ?case by simp
next
  case (Cons p cs)
  obtain c v where p: "p = (c, v)" by (cases p)
  with Cons.prems have c: "1 < c" by simp
  show ?case
  proof (cases "res c")
    case (Some e)
    with p show ?thesis by simp
  next
    case None
    let ?sh = "update_cell row c v sh"
    from first_cells_update_other [OF Cons.prems(1,2) c Cons.prems(3)]
    have m: "map first_cell ?sh = map first_cell sh" .
    from length_update_cell_in_range [OF Cons.prems(1,2)] Cons.prems(2)
    have l: "row \<le> length ?sh" by simp
    from Cons.prems(3) m have x: "map first_cell ?sh ! (row - 1) = Some x" by simp
    from Cons.prems(4) have "\<forall>p \<in> set cs. 1 < fst p" by simp
    from Cons.IH [OF Cons.prems(1) l x this] m
    have "map first_cell (fst (snd (write_cells res row cs ?sh))) = map first_cell sh" by simp
    moreover from p None
    have "fst (snd (write_cells res row (p # cs) sh)) = fst (snd (write_cells res row cs ?sh))"
      by (cases "write_cells res row cs ?sh") simp
    ultimately show ?thesis by simp
  qed
qed

lemma first_cells_update_date:
  assumes "0 < row" "row \<le> length sh + 1"
  shows "map first_cell (update_cell row 1 v sh) =
    (if row \<le> length sh then (map first_cell sh)[row - 1 := Some v]
     else map first_cell sh @ [Some v])"
proof (cases "row \<le> length sh")
  case True
  with assms show ?thesis
    by (simp add: update_cell_in_range map_update first_cell_row_set_date del: One_nat_def)
next
  case False
  with assms have r: "row = Suc (length sh)" by simp
  have "update_cell (Suc (length sh)) 1 v sh = sh @ [row_set 1 v []]"
    by (simp add: update_cell_def Let_def)
  with r False show ?thesis
    by (simp add: first_cell_row_set_date del: One_nat_def)
qed


lemma date_less_trans: "date_less a b \<Longrightarrow> date_less b c \<Longrightarrow> date_less a c"
  by (auto simp: date_less_def)

lemma date_less_total: "\<not> date_less a b \<Longrightarrow> a \<noteq> b \<Longrightarrow> date_less b a"
  by (cases a; cases b) (auto simp: date_less_def)

lemma sorted_wrt_snoc_date:
  assumes "sorted_wrt date_less ds" "ds \<noteq> []" "date_less (last ds) d"
  shows "sorted_wrt date_less (ds @ [d])"
proof -
  from assms(2) have ds: "ds = butlast ds @ [last ds]" by simp
  with assms(1) have "sorted_wrt date_less (butlast ds @ [last ds])" by simp
  then have "\<forall>x \<in> set (butlast ds). date_less x (last ds)"
    by (simp add: sorted_wrt_append)
  with assms(3) have "\<forall>x \<in> set (butlast ds). date_less x d"
    by (blast intro: date_less_trans)
  moreover have "set ds = set (butlast ds) \<union> {last ds}"
    by (subst ds) simp
  ultimately have "\<forall>x \<in> set ds. date_less x d" using assms(3) by auto
  with assms(1) show ?thesis by (simp add: sorted_wrt_append)
qed

lemma write_cells_first_cells:
  assumes "0 < row" "row \<le> length sh + 1"
  shows "map first_cell (fst (snd (write_cells res row ((1, v) # zip [2, 3, 4, 5] counts) sh)))
    \<in> {map first_cell sh,
        (if row \<le> length sh then (map first_cell sh)[row - 1 := Some v]
         else map first_cell sh @ [Some v])}"
proof (cases "res 1")
  case (Some e)
  then show ?thesis by simp
next
  case None
  let ?sh = "update_cell row 1 v sh"
  let ?cs = "zip [2, 3, 4, 5 :: nat] counts"
  have m: "map first_cell ?sh =
    (if row \<le> length sh then (map first_cell sh)[row - 1 := Some v] else map first_cell sh @ [Some v])"
    by (rule first_cells_update_date [OF assms])
  from assms have l: "row \<le> length ?sh"
    using arg_cong [OF m, of length] by (simp split: if_splits)
  from assms have x: "map first_cell ?sh ! (row - 1) = Some v"
    unfolding m by (auto simp: nth_append)
  have "\<forall>p \<in> set ?cs. 1 < fst p"
    by (auto dest!: set_zip_leftD)
  from first_cells_write_rest [OF assms(1) l x this, of res]
  have "map first_cell (fst (snd (write_cells res row ?cs ?sh))) = map first_cell ?sh" .
  moreover from None
  have "fst (snd (write_cells res row ((1, v) # ?cs) sh)) = fst (snd (write_cells res row ?cs ?sh))"
    by (cases "write_cells res row ?cs ?sh") simp
  ultimately show ?thesis using m by simp
qed

lemma dated_by_last:
  assumes "dated_by ds sh" "sh \<noteq> []"
  shows "ds \<noteq> [] \<and> first_cell (last sh) = Some (strftime_Ymd (last ds))"
proof -
  from assms(1) have m: "map first_cell sh = map (\<lambda>d. Some (strftime_Ymd d)) ds"
    by (simp add: dated_by_def)
  from arg_cong [OF m, of length] assms(2) have ds: "ds \<noteq> []" by auto
  from assms(2) have "first_cell (last sh) = last (map first_cell sh)" by (simp add: last_map)
  also have "\<dots> = last (map (\<lambda>d. Some (strftime_Ymd d)) ds)" by (simp only: m)
  also from ds have "\<dots> = Some (strftime_Ymd (last ds))" by (simp add: last_map)
  finally show ?thesis using ds by simp
qed

lemma record_row_sheet:
  assumes "open_and_read w = (None, ev)" "df_get (sheet w) 0 (int (length (sheet w)) - 1) = Inr c"
  shows "fst (snd (record_row w counts)) =
    fst (snd (write_cells (update_res w)
      (if str_cell c = strftime_Ymd (today w) then length (sheet w) else length (sheet w) + 1)
      (zip [1, 2, 3, 4, 5] (strftime_Ymd (today w) # counts)) (sheet w)))"
  using assms
  by (simp add: record_row_def Let_def split: prod.splits option.splits
      del: write_cells.simps zip_Cons_Cons)

lemma record_row_first_cells:
  assumes "dated_by ds (sheet w)"
  shows "map first_cell (fst (snd (record_row w counts))) = map first_cell (sheet w) \<or>
    (ds \<noteq> [] \<and> strftime_Ymd (last ds) \<noteq> strftime_Ymd (today w) \<and>
     map first_cell (fst (snd (record_row w counts))) =
       map first_cell (sheet w) @ [Some (strftime_Ymd (today w))])"
proof -
  let ?sh = "sheet w" and ?date = "strftime_Ymd (today w)"
  obtain r ev where o: "open_and_read w = (r, ev)" by (cases "open_and_read w")
  show ?thesis
  proof (cases r)
    case (Some e)
    with o show ?thesis by (simp add: record_row_def)
  next
    case None
    show ?thesis
    proof (cases "df_get ?sh 0 (int (length ?sh) - 1)")
      case (Inl e)
      with o None show ?thesis by (simp add: record_row_def Let_def)
    next
      case (Inr c)
      then have ne: "?sh \<noteq> []" by (auto simp: df_get_def ncols_def split: if_splits)
      from dated_by_last [OF assms ne]
      have ds: "ds \<noteq> []" and fc: "first_cell (last ?sh) = Some (strftime_Ymd (last ds))"
        by simp_all
      from df_get_last [OF ne fc] Inr have c: "str_cell c = strftime_Ymd (last ds)"
        by (simp add: str_cell_def)
      define row where "row = (if str_cell c = ?date then length ?sh else length ?sh + 1)"
      from ne have pos: "0 < row" and le: "row \<le> length ?sh + 1"
        by (simp_all add: row_def)
      obtain x sh' ev' where wc:
        "write_cells (update_res w) row ((1, ?date) # zip [2, 3, 4, 5] counts) ?sh = (x, sh', ev')"
        by (cases "write_cells (update_res w) row ((1, ?date) # zip [2, 3, 4, 5] counts) ?sh")
      have z: "zip [1, 2, 3, 4, 5] (?date # counts) = (1, ?date) # zip [2, 3, 4, 5] counts"
        by simp
      from o None have o': "open_and_read w = (None, ev)" by simp
      from record_row_sheet [OF o' Inr, of counts] wc
      have rr: "fst (snd (record_row w counts)) = sh'"
        unfolding z row_def [symmetric] by simp
      from write_cells_first_cells [OF pos le, of "update_res w" ?date counts] wc
      have mem: "map first_cell sh' \<in> {map first_cell ?sh,
          (if row \<le> length ?sh then (map first_cell ?sh)[row - 1 := Some ?date]
           else map first_cell ?sh @ [Some ?date])}"
        by simp
      show ?thesis
      proof (cases "str_cell c = ?date")
        case True
        then have row: "row = length ?sh" by (simp add: row_def)
        from ne fc True c have "map first_cell ?sh ! (length ?sh - 1) = Some ?date"
          by (simp add: last_conv_nth)
        then have "(map first_cell ?sh)[length ?sh - 1 := Some ?date] = map first_cell ?sh"
          by (metis list_update_id)
        with mem row rr show ?thesis by auto
      next
        case False
        then have row: "row = length ?sh + 1" by (simp add: row_def)
        from False c have "strftime_Ymd (last ds) \<noteq> ?date" by simp
        with mem row rr ds show ?thesis by auto
      qed
    qed
  qed
qed


lemma sheet_after_cases:
  "sheet_after w = sheet w \<or> (\<exists>counts. sheet_after w = fst (snd (record_row w counts)))"
proof -
  obtain r ev where f: "fetch_all w query_ids = (r, ev)" by (cases "fetch_all w query_ids")
  show ?thesis
  proof (cases r)
    case (Inl e)
    with f show ?thesis by (simp add: sheet_after_def main_def main_error_def)
  next
    case (Inr counts)
    obtain x sh ev' where rr: "record_row w counts = (x, sh, ev')"
      by (cases "record_row w counts")
    with f Inr have "sheet_after w = fst (snd (record_row w counts))"
      by (cases x) (simp_all add: sheet_after_def main_def main_error_def)
    then show ?thesis by blast
  qed
qed

text \<open>
  Claim C8. Let the first cells of the rows be the renderings of a strictly increasing
  list of dates (rows in date order, at most one row per date), and let the last of these
  dates be not later than today. Then after one run of \<open>main\<close>, whatever the
  libraries answer, the first cells are again the renderings of a strictly increasing
  list of dates: the same list, or the list extended by today.
\<close>

theorem run_preserves_date_order:
  assumes "dated_by ds (sheet w)"
    and "sorted_wrt date_less ds"
    and "ds = [] \<or> \<not> date_less (today w) (last ds)"
  shows "\<exists>ds'. (ds' = ds \<or> ds' = ds @ [today w]) \<and>
           dated_by ds' (sheet_after w) \<and> sorted_wrt date_less ds'"
proof -
  from sheet_after_cases [of w] record_row_first_cells [OF assms(1)]
  consider "map first_cell (sheet_after w) = map first_cell (sheet w)"
    | "ds \<noteq> []" "strftime_Ymd (last ds) \<noteq> strftime_Ymd (today w)"
      "map first_cell (sheet_after w) = map first_cell (sheet w) @ [Some (strftime_Ymd (today w))]"
    by metis
  then show ?thesis
  proof cases
    case 1
    with assms(1) have "dated_by ds (sheet_after w)" by (simp add: dated_by_def)
    with assms(2) show ?thesis by blast
  next
    case 2
    from 2(2) have "last ds \<noteq> today w" by auto
    with assms(3) 2(1) have "date_less (last ds) (today w)"
      by (metis date_less_total)
    from sorted_wrt_snoc_date [OF assms(2) 2(1) this]
    have "sorted_wrt date_less (ds @ [today w])" .
    moreover from 2(3) assms(1) have "dated_by (ds @ [today w]) (sheet_after w)"
      by (simp add: dated_by_def)
    ultimately show ?thesis by blast
  qed
qed

lemma dated_five_rows: "dated_by five_dates five_rows"
  by (simp add: dated_by_def five_dates_def five_rows_def first_cell_def strftime_Ymd_def
      zfill_def show_nat.simps digit_char_def)

lemma sorted_five_dates: "sorted_wrt date_less five_dates"
  by (simp add: five_dates_def date_less_def)

text \<open>
  An instance: the five-row sheet, dated 2023-12-28 to 2024-01-01, and a run on
  2024-01-02.
\<close>

theorem run_preserves_date_order_witness:
  "dated_by five_dates (sheet (example_world [''120'', ''45'', ''3'', ''1''] five_rows next_day)) \<and>
   sorted_wrt date_less five_dates \<and>
   \<not> date_less (today (example_world [''120'', ''45'', ''3'', ''1''] five_rows next_day)) (last five_dates) \<and>
   (\<exists>ds'. (ds' = five_dates \<or> ds' = five_dates @ [next_day]) \<and>
      dated_by ds' (sheet_after (example_world [''120'', ''45'', ''3'', ''1''] five_rows next_day)) \<and>
      sorted_wrt date_less ds')"
proof -
  let ?w = "example_world [''120'', ''45'', ''3'', ''1''] five_rows next_day"
  have s: "sheet ?w = five_rows" "today ?w = next_day" by (simp_all add: example_world_def)
  have h1: "dated_by five_dates (sheet ?w)" by (simp add: s dated_five_rows)
  have h3: "\<not> date_less (today ?w) (last five_dates)"
    unfolding s by (simp add: five_dates_def next_day_def date_less_def)
  then have h3': "five_dates = [] \<or> \<not> date_less (today ?w) (last five_dates)" by simp
  from run_preserves_date_order [OF h1 sorted_five_dates h3'] h1 h3 sorted_five_dates show ?thesis
    by (simp only: s) simp
qed

end
